theory Spec2Isabelle
  imports Complex_Main "HOL-Library.Sublist"
begin

section \<open>Data model\<close>

text \<open>
  The player is one React component (\<open>App\<close>) that owns all state through \<open>useState\<close> and
  \<open>useRef\<close> hooks and drives one \<open>AudioEngine\<close>, a thin wrapper around one
  \<open>HTMLAudioElement\<close>. The model passes the state explicitly. JavaScript numbers that
  hold indices are modelled as \<open>int\<close>; times and volumes as \<open>real\<close> (the only arithmetic
  on them is \<open>min\<close>, \<open>max\<close> and adding or subtracting a constant).
\<close>

record Track =
  path :: string
  title :: string
  artist :: "string option"
  cover :: "string option"
  duration :: "real option"

text \<open>
  A \<open>Blob\<close> built from the bytes of a file. Object URLs are modelled by the number of the
  \<open>URL.createObjectURL\<close> call that made them; the browser's table of live object URLs is the
  map \<open>objectUrls\<close> of the state below.
\<close>

record Blob =
  bytes :: "nat list"
  mimeType :: string

text \<open>
  The attributes of the \<open>HTMLAudioElement\<close> that \<open>AudioEngine\<close> assigns. \<open>paused\<close> is set
  by \<open>pause()\<close> and cleared when a \<open>play()\<close> promise resolves.
\<close>

record HTMLAudioElement =
  src :: "nat option"
  volume :: real
  currentTime :: real
  paused :: bool

record AudioEngine =
  audio :: HTMLAudioElement

text \<open>
  An asynchronous call that is suspended at an \<open>await\<close> (or a promise with \<open>then\<close>/\<open>catch\<close>
  handlers attached):
  \<^item> \<open>Loading track vol\<close>: \<open>playTrack\<close> waiting for the dynamic import and \<open>readFile(track.path)\<close>,
    with the track and the volume its closure holds;
  \<^item> \<open>Starting\<close>: \<open>playTrack\<close> waiting for \<open>audioEngine.play()\<close>;
  \<^item> \<open>Resuming\<close>: the \<open>audioEngine.play()\<close> promise of \<open>togglePlay\<close>.
\<close>

datatype pending = Loading Track real | Starting | Resuming

datatype outcome = Resolved "nat list" | Rejected

record App =
  isPlaying :: bool
  playlist :: "Track list"
  currentIndex :: int
  currentTime :: real
  duration :: real
  volume :: real
  errorMessage :: "string option"
  selectedIndices :: "int list"
  currentObjectUrlRef :: "nat option"
  audioEngine :: AudioEngine
  objectUrls :: "nat \<rightharpoonup> Blob"
  nextUrl :: nat
  timers :: "nat list"
  pending :: "pending list"

text \<open>
  \<open>selectedIndices\<close> is a JavaScript \<open>Set<number>\<close>: a list without duplicates in insertion
  order. \<open>timers\<close> holds the delays (in milliseconds) of the \<open>setTimeout\<close> callbacks that
  are scheduled and have not run; every callback the component schedules is
  \<open>() => setErrorMessage(null)\<close>. \<open>playlistRef\<close> and \<open>indexRef\<close> are assigned the
  committed \<open>playlist\<close> and \<open>currentIndex\<close> by two effects after every render, so the
  model reads them from the state.
\<close>

definition initialApp :: App where
  "initialApp =
     \<lparr>isPlaying = False, playlist = [], currentIndex = -1, currentTime = 0, duration = 0,
      volume = 1, errorMessage = None, selectedIndices = [], currentObjectUrlRef = None,
      audioEngine = \<lparr>audio = \<lparr>src = None, volume = 1, currentTime = 0, paused = True\<rparr>\<rparr>,
      objectUrls = Map.empty, nextUrl = 0, timers = [], pending = []\<rparr>"

section \<open>AudioEngine\<close>

definition load :: "AudioEngine \<Rightarrow> nat \<Rightarrow> AudioEngine" where
  "load e u = e\<lparr>audio := (audio e)\<lparr>src := Some u\<rparr>\<rparr>"

definition pause :: "AudioEngine \<Rightarrow> AudioEngine" where
  "pause e = e\<lparr>audio := (audio e)\<lparr>paused := True\<rparr>\<rparr>"

definition setVolume :: "AudioEngine \<Rightarrow> real \<Rightarrow> AudioEngine" where
  "setVolume e v = e\<lparr>audio := (audio e)\<lparr>HTMLAudioElement.volume := max 0 (min 1 v)\<rparr>\<rparr>"

definition seek :: "AudioEngine \<Rightarrow> real \<Rightarrow> AudioEngine" where
  "seek e t = e\<lparr>audio := (audio e)\<lparr>HTMLAudioElement.currentTime := t\<rparr>\<rparr>"

text \<open>The effect on the element of a \<open>play()\<close> promise that resolves.\<close>

definition playing :: "AudioEngine \<Rightarrow> AudioEngine" where
  "playing e = e\<lparr>audio := (audio e)\<lparr>paused := False\<rparr>\<rparr>"

section \<open>Helper functions of the component\<close>

text \<open>\<open>toLowerCase\<close> on the ASCII letters; every other character is kept.\<close>

definition toLowerChar :: "char \<Rightarrow> char" where
  "toLowerChar c =
     (case map_of (zip ''ABCDEFGHIJKLMNOPQRSTUVWXYZ'' ''abcdefghijklmnopqrstuvwxyz'') c of
        Some l \<Rightarrow> l
      | None \<Rightarrow> c)"

definition toLowerCase :: "string \<Rightarrow> string" where
  "toLowerCase s = map toLowerChar s"

definition endsWith :: "string \<Rightarrow> string \<Rightarrow> bool" where
  "endsWith s e = suffix e s"

definition validExtensions :: "string list" where
  "validExtensions =
     [''.mp3'', ''.m4a'', ''.flac'', ''.wav'', ''.ogg'', ''.opus'', ''.aac'', ''.wma'']"

definition isValidAudioFile :: "string \<Rightarrow> bool" where
  "isValidAudioFile p = list_ex (\<lambda>ext. endsWith (toLowerCase p) ext) validExtensions"

definition mimeTypes :: "(string \<times> string) list" where
  "mimeTypes =
     [(''mp3'', ''audio/mpeg''), (''m4a'', ''audio/mp4''), (''flac'', ''audio/flac''),
      (''wav'', ''audio/wav''), (''ogg'', ''audio/ogg''), (''opus'', ''audio/opus''),
      (''aac'', ''audio/aac''), (''wma'', ''audio/x-ms-wma'')]"

text \<open>\<open>split('.').pop()\<close> is the part after the last dot (the whole string without one).\<close>

definition getMimeType :: "string \<Rightarrow> string" where
  "getMimeType p =
     (let ext = rev (takeWhile (\<lambda>c. c \<noteq> CHR ''.'') (rev (toLowerCase p)))
      in case map_of mimeTypes ext of Some m \<Rightarrow> m | None \<Rightarrow> ''audio/mpeg'')"

section \<open>playTrack\<close>

text \<open>
  \<open>playTrack s vol index currentList\<close> is the part of \<open>playTrack(index, currentList)\<close> that runs
  before its first \<open>await\<close>. \<open>vol\<close> is the \<open>volume\<close> captured by the closure of the
  \<open>useCallback\<close>: the current volume for the callers that are re-created on every render,
  and the initial volume \<open>1\<close> for the handlers installed once by the mount effect.
\<close>

definition revokeCurrent :: "App \<Rightarrow> App" where
  "revokeCurrent s =
     (case currentObjectUrlRef s of
        None \<Rightarrow> s
      | Some u \<Rightarrow> s\<lparr>objectUrls := (objectUrls s)(u := None), currentObjectUrlRef := None\<rparr>)"

definition playTrack :: "App \<Rightarrow> real \<Rightarrow> int \<Rightarrow> Track list \<Rightarrow> App" where
  "playTrack s vol index currentList =
     (if index < 0 \<or> index \<ge> int (length currentList) then s
      else
        let track = currentList ! nat index in
        if \<not> isValidAudioFile (path track) then
          s\<lparr>errorMessage := Some ''Invalid audio file type'', timers := timers s @ [3000]\<rparr>
        else
          let s1 = s\<lparr>currentIndex := index\<rparr>;
              s2 = revokeCurrent s1
          in s2\<lparr>pending := pending s2 @ [Loading track vol]\<rparr>)"

text \<open>The \<open>catch\<close> block of \<open>playTrack\<close>.\<close>

definition playTrackFailed :: "App \<Rightarrow> App" where
  "playTrackFailed s =
     s\<lparr>errorMessage := Some ''Failed to load audio file'', timers := timers s @ [3000],
       isPlaying := False\<rparr>"

text \<open>\<open>playTrack\<close> from the settlement of \<open>readFile\<close> up to \<open>await audioEngine.play()\<close>.\<close>

definition playTrackLoaded :: "App \<Rightarrow> Track \<Rightarrow> real \<Rightarrow> outcome \<Rightarrow> App" where
  "playTrackLoaded s track vol r =
     (case r of
        Rejected \<Rightarrow> playTrackFailed s
      | Resolved bs \<Rightarrow>
          let blob = \<lparr>bytes = bs, mimeType = getMimeType (path track)\<rparr>;
              url = nextUrl s;
              s1 = s\<lparr>objectUrls := (objectUrls s)(url \<mapsto> blob), nextUrl := Suc url\<rparr>;
              s2 = s1\<lparr>currentObjectUrlRef := Some url\<rparr>;
              s3 = s2\<lparr>audioEngine := setVolume (load (audioEngine s2) url) vol\<rparr>
          in s3\<lparr>pending := pending s3 @ [Starting]\<rparr>)"

text \<open>\<open>playTrack\<close> after \<open>await audioEngine.play()\<close>.\<close>

definition playTrackStarted :: "App \<Rightarrow> outcome \<Rightarrow> App" where
  "playTrackStarted s r =
     (case r of
        Rejected \<Rightarrow> playTrackFailed s
      | Resolved _ \<Rightarrow>
          s\<lparr>audioEngine := playing (audioEngine s), isPlaying := True, errorMessage := None\<rparr>)"

section \<open>togglePlay\<close>

definition togglePlay :: "App \<Rightarrow> App" where
  "togglePlay s =
     (if isPlaying s then s\<lparr>audioEngine := pause (audioEngine s), isPlaying := False\<rparr>
      else if currentIndex s = -1 \<and> length (playlist s) > 0 then
        playTrack s (volume s) 0 (playlist s)
      else s\<lparr>pending := pending s @ [Resuming]\<rparr>)"

definition togglePlaySettled :: "App \<Rightarrow> outcome \<Rightarrow> App" where
  "togglePlaySettled s r =
     (case r of
        Rejected \<Rightarrow> s\<lparr>isPlaying := False\<rparr>
      | Resolved _ \<Rightarrow> s\<lparr>audioEngine := playing (audioEngine s), isPlaying := True\<rparr>)"

section \<open>Settlement of a suspended call\<close>

text \<open>
  \<open>settle s k r\<close>: the \<open>k\<close>-th suspended call of \<open>s\<close> is resumed with outcome \<open>r\<close>. The calls
  may settle in any order.
\<close>

definition settle :: "App \<Rightarrow> nat \<Rightarrow> outcome \<Rightarrow> App" where
  "settle s k r =
     (if k < length (pending s) then
        let s' = s\<lparr>pending := take k (pending s) @ drop (Suc k) (pending s)\<rparr>
        in case pending s ! k of
             Loading track vol \<Rightarrow> playTrackLoaded s' track vol r
           | Starting \<Rightarrow> playTrackStarted s' r
           | Resuming \<Rightarrow> togglePlaySettled s' r
      else s)"

text \<open>A scheduled \<open>setTimeout\<close> callback runs (all have the same delay, so in order).\<close>

definition timeout :: "App \<Rightarrow> App" where
  "timeout s =
     (case timers s of [] \<Rightarrow> s | t # ts \<Rightarrow> s\<lparr>errorMessage := None, timers := ts\<rparr>)"

section \<open>Selection and deletion\<close>

definition handlePlaylistItemClick :: "App \<Rightarrow> int \<Rightarrow> bool \<Rightarrow> App" where
  "handlePlaylistItemClick s index modKey =
     (if modKey then
        s\<lparr>selectedIndices :=
            (if index \<in> set (selectedIndices s) then removeAll index (selectedIndices s)
             else selectedIndices s @ [index])\<rparr>
      else (playTrack s (volume s) index (playlist s))\<lparr>selectedIndices := []\<rparr>)"

text \<open>\<open>xs.splice(idx, 1)\<close>: a negative start counts from the end, a start past the end removes nothing.\<close>

definition splice1 :: "'a list \<Rightarrow> int \<Rightarrow> 'a list" where
  "splice1 xs idx =
     (let len = int (length xs);
          start = (if idx < 0 then max (len + idx) 0 else min idx len)
      in take (nat start) xs @ drop (nat start + 1) xs)"

text \<open>\<open>Array.from(selectedIndices).sort((a, b) => b - a)\<close>.\<close>

definition indicesToDelete :: "int list \<Rightarrow> int list" where
  "indicesToDelete sel = rev (sort sel)"

text \<open>The \<open>for\<close> loop of the \<open>setCurrentIndex\<close> updater, with its early return.\<close>

fun adjustIndex :: "int \<Rightarrow> int \<Rightarrow> int list \<Rightarrow> int" where
  "adjustIndex prevIdx newIdx [] = newIdx"
| "adjustIndex prevIdx newIdx (deletedIdx # rest) =
     (if deletedIdx < prevIdx then adjustIndex prevIdx (newIdx - 1) rest
      else if deletedIdx = prevIdx then -1
      else adjustIndex prevIdx newIdx rest)"

definition deleteSelectedTracks :: "App \<Rightarrow> App" where
  "deleteSelectedTracks s =
     (if length (selectedIndices s) = 0 then s
      else
        let ds = indicesToDelete (selectedIndices s) in
        s\<lparr>playlist := foldl splice1 (playlist s) ds,
          currentIndex :=
            (if currentIndex s = -1 then -1 else adjustIndex (currentIndex s) (currentIndex s) ds),
          selectedIndices := []\<rparr>)"

section \<open>Notifications of the audio element and ingestion\<close>

text \<open>
  The \<open>ended\<close> handler, installed once by the mount effect: its \<open>playTrack\<close> is the one of
  the first render, whose closure holds the initial volume \<open>1\<close>.
\<close>

definition onEnded :: "App \<Rightarrow> App" where
  "onEnded s =
     (let currentPlaylist = playlist s;
          currentIdx = currentIndex s
      in if currentIdx < 0 \<or> currentIdx \<ge> int (length currentPlaylist) then s\<lparr>isPlaying := False\<rparr>
         else
           let nextIndex = currentIdx + 1 in
           if nextIndex < int (length currentPlaylist) then playTrack s 1 nextIndex currentPlaylist
           else s\<lparr>isPlaying := False\<rparr>)"

text \<open>
  The \<open>setPlaylist\<close> updater at the end of the drag-and-drop listener, with the microtask
  it queues; \<open>newTracks\<close> are the tracks built from the dropped paths.
\<close>

definition appendTracks :: "App \<Rightarrow> Track list \<Rightarrow> App" where
  "appendTracks s newTracks =
     (let prev = playlist s;
          updated = prev @ newTracks;
          s1 = s\<lparr>playlist := updated\<rparr>
      in if length prev = 0 \<and> length updated > 0 then playTrack s1 1 0 updated else s1)"

section \<open>Keyboard shortcuts\<close>

record KeyboardEvent =
  targetIsInput :: bool
  metaKey :: bool
  ctrlKey :: bool
  code :: string

definition handleKeyDown :: "App \<Rightarrow> KeyboardEvent \<Rightarrow> App" where
  "handleKeyDown s e =
     (if targetIsInput e then s
      else if (metaKey e \<or> ctrlKey e) \<and> code e = ''KeyA'' then
        s\<lparr>selectedIndices := map int [0..<length (playlist s)]\<rparr>
      else if code e = ''Delete'' \<or> code e = ''Backspace'' then deleteSelectedTracks s
      else if code e = ''Space'' then togglePlay s
      else if code e = ''ArrowLeft'' then
        s\<lparr>audioEngine := seek (audioEngine s) (currentTime s - 5), currentTime := currentTime s - 5\<rparr>
      else if code e = ''ArrowRight'' then
        s\<lparr>audioEngine := seek (audioEngine s) (currentTime s + 5), currentTime := currentTime s + 5\<rparr>
      else if code e = ''ArrowUp'' then
        (let vUp = min 1 (volume s + 0.1)
         in s\<lparr>volume := vUp, audioEngine := setVolume (audioEngine s) vUp\<rparr>)
      else if code e = ''ArrowDown'' then
        (let vDown = max 0 (volume s - 0.1)
         in s\<lparr>volume := vDown, audioEngine := setVolume (audioEngine s) vDown\<rparr>)
      else s)"

section \<open>State invariants\<close>

text \<open>
  The invariants of the data model: the index invariant
  (\<open>CurrentIndex == -1 || 0 <= CurrentIndex < len(playlist)\<close>), the playing invariant
  (if \<open>isPlaying\<close> then \<open>CurrentIndex != -1\<close>), and that the selection is a set of
  rows of the playlist.
\<close>

definition indexValid :: "App \<Rightarrow> bool" where
  "indexValid s =
     (currentIndex s = -1 \<or> (0 \<le> currentIndex s \<and> currentIndex s < int (length (playlist s))))"

definition playingHasTrack :: "App \<Rightarrow> bool" where
  "playingHasTrack s = (isPlaying s \<longrightarrow> currentIndex s \<noteq> -1)"

definition selectionValid :: "App \<Rightarrow> bool" where
  "selectionValid s =
     (distinct (selectedIndices s)
      \<and> (\<forall>d\<in>set (selectedIndices s). 0 \<le> d \<and> d < int (length (playlist s))))"

section \<open>Example data\<close>

definition trackA :: Track where
  "trackA = \<lparr>path = ''/m/a.mp3'', title = ''A'', artist = None, cover = None, duration = None\<rparr>"

definition trackB :: Track where
  "trackB = \<lparr>path = ''/m/b.flac'', title = ''B'', artist = None, cover = None, duration = None\<rparr>"

definition trackC :: Track where
  "trackC = \<lparr>path = ''/m/c.WAV'', title = ''C'', artist = None, cover = None, duration = None\<rparr>"

definition trackX :: Track where
  "trackX = \<lparr>path = ''/m/x.png'', title = ''X'', artist = None, cover = None, duration = None\<rparr>"

text \<open>The playlist \<open>[A, B, C]\<close>, nothing loaded.\<close>

definition abc :: App where
  "abc = initialApp\<lparr>playlist := [trackA, trackB, trackC]\<rparr>"

text \<open>
  Track \<open>A\<close> of \<open>[A, B, C]\<close> was started from \<open>abc\<close>; its file was read (bytes \<open>[1]\<close>)
  and its \<open>play()\<close> resolved.
\<close>

definition playingA :: App where
  "playingA = settle (settle (playTrack abc 1 0 (playlist abc)) 0 (Resolved [1])) 0 (Resolved [])"

text \<open>
  From \<open>abc\<close>, \<open>playTrack(0)\<close> and then \<open>playTrack(1)\<close> were called; the file of track
  \<open>B\<close> has been read (bytes \<open>[2]\<close>) and its \<open>play()\<close> has resolved, while the read of track
  \<open>A\<close> is still pending.
\<close>

definition supersededLoad :: App where
  "supersededLoad =
     settle (settle (playTrack (playTrack abc 1 0 (playlist abc)) 1 1 (playlist abc))
       1 (Resolved [2])) 1 (Resolved [])"

text \<open>A key pressed outside an input field, with or without the platform modifier.\<close>

definition keyDown :: "bool \<Rightarrow> string \<Rightarrow> KeyboardEvent" where
  "keyDown m c = \<lparr>targetIsInput = False, metaKey = m, ctrlKey = False, code = c\<rparr>"

text \<open>
  While track \<open>A\<close> was playing the user pressed Space (pause), Cmd+A (select all), Delete
  and Space again: the playlist is empty, nothing is current, and the \<open>play()\<close> promise of
  \<open>togglePlay\<close> is pending.
\<close>

definition resumedAfterDeleteAll :: App where
  "resumedAfterDeleteAll =
     handleKeyDown
       (handleKeyDown
         (handleKeyDown (handleKeyDown playingA (keyDown False ''Space'')) (keyDown True ''KeyA''))
         (keyDown False ''Delete''))
       (keyDown False ''Space'')"

text \<open>
  While track \<open>A\<close> was playing the user clicked \<open>B\<close> and then \<open>C\<close>; the file of \<open>C\<close> has been
  read (bytes \<open>[3]\<close>), the read of \<open>B\<close> is still pending.
\<close>

definition clickedBthenC :: App where
  "clickedBthenC =
     settle
       (handlePlaylistItemClick (handlePlaylistItemClick playingA 1 False) 2 False)
       1 (Resolved [3])"

section \<open>Volume (AudioEngine.setVolume)\<close>

text \<open>
  C8. For every input \<open>v\<close>, \<open>setVolume\<close> applies a volume between 0 and 1 to the element
  (1 for 1.5, 0 for -0.2), and applying \<open>setVolume\<close> again to the applied volume changes
  nothing.
\<close>

theorem setVolume_clamped_idempotent:
  "0 \<le> HTMLAudioElement.volume (audio (setVolume e v))
   \<and> HTMLAudioElement.volume (audio (setVolume e v)) \<le> 1
   \<and> setVolume (setVolume e v) (HTMLAudioElement.volume (audio (setVolume e v))) = setVolume e v
   \<and> HTMLAudioElement.volume (audio (setVolume e 1.5)) = 1
   \<and> HTMLAudioElement.volume (audio (setVolume e (-0.2))) = 0"
  by (simp add: setVolume_def)

section \<open>Deleting the selected tracks\<close>

lemma adjustIndex_eq:
  "adjustIndex p n ds = (if p \<in> set ds then -1 else n - int (length (filter (\<lambda>d. d < p) ds)))"
  by (induction ds arbitrary: n) auto

lemma splice1_nat: "0 \<le> d \<Longrightarrow> splice1 xs d = take (nat d) xs @ drop (Suc (nat d)) xs"
  unfolding splice1_def Let_def
  by (cases "d \<le> int (length xs)") (simp_all add: min_def)

lemma nths_agree:
  "(\<And>i. i < length xs \<Longrightarrow> (i \<in> A) = (i \<in> B)) \<Longrightarrow> nths xs A = nths xs B"
  unfolding nths_def
  by (rule arg_cong [where f = "map fst"], rule filter_cong) (auto simp: in_set_zip)

lemma nths_remove:
  assumes "\<forall>i\<in>S. i < d"
  shows "nths (take d xs @ drop (Suc d) xs) (- S) = nths xs (- insert d S)"
proof (cases "d < length xs")
  case True
  have split: "xs = take d xs @ xs ! d # drop (Suc d) xs"
    using True by (simp add: id_take_nth_drop)
  have len: "length (take d xs) = d" using True by simp
  have A: "nths (drop (Suc d) xs) {j. j + d \<in> - S} = drop (Suc d) xs"
    using assms by (intro nths_all) auto
  have B: "nths (drop (Suc d) xs) {j. Suc j \<in> {j. j + d \<in> - insert d S}} = drop (Suc d) xs"
    using assms by (intro nths_all) auto
  have C: "nths (take d xs) (- insert d S) = nths (take d xs) (- S)"
    by (rule nths_agree) (use len in auto)
  have "nths xs (- insert d S) = nths (take d xs @ xs ! d # drop (Suc d) xs) (- insert d S)"
    using split by simp
  also have "\<dots> = nths (take d xs) (- S) @ drop (Suc d) xs"
    by (simp only: nths_append nths_Cons len B C) simp
  also have "\<dots> = nths (take d xs @ drop (Suc d) xs) (- S)"
    by (simp only: nths_append len A)
  finally show ?thesis by simp
next
  case False
  then have "take d xs @ drop (Suc d) xs = xs" by simp
  moreover have "nths xs (- S) = nths xs (- insert d S)"
    by (rule nths_agree) (use False in auto)
  ultimately show ?thesis by simp
qed

lemma foldl_splice1_descending:
  assumes "sorted_wrt (\<lambda>a b. b < a) ds" "\<forall>d\<in>set ds. 0 \<le> d"
  shows "foldl splice1 xs ds = nths xs {i. int i \<notin> set ds}"
  using assms
proof (induction ds arbitrary: xs)
  case Nil
  then show ?case by (simp add: nths_all)
next
  case (Cons d ds)
  let ?S = "{i. int i \<in> set ds}"
  have below: "\<forall>i\<in>?S. i < nat d" using Cons.prems by auto
  have "foldl splice1 xs (d # ds) = foldl splice1 (splice1 xs d) ds" by simp
  also have "\<dots> = nths (splice1 xs d) {i. int i \<notin> set ds}"
    using Cons by simp
  also have "\<dots> = nths (take (nat d) xs @ drop (Suc (nat d)) xs) (- ?S)"
    using Cons.prems by (simp add: splice1_nat Compl_eq)
  also have "\<dots> = nths xs (- insert (nat d) ?S)"
    by (rule nths_remove [OF below])
  also have "- insert (nat d) ?S = {i. int i \<notin> set (d # ds)}"
    using Cons.prems by auto
  finally show ?case .
qed

lemma indicesToDelete_descending:
  "distinct sel \<Longrightarrow> sorted_wrt (\<lambda>a b. b < a) (indicesToDelete sel)"
  by (simp add: indicesToDelete_def sorted_wrt_rev strict_sorted_iff)

lemma set_indicesToDelete: "set (indicesToDelete sel) = set sel"
  by (simp add: indicesToDelete_def)

lemma playlist_deleteSelectedTracks:
  assumes "distinct (selectedIndices s)" "\<forall>d\<in>set (selectedIndices s). 0 \<le> d"
  shows "playlist (deleteSelectedTracks s) = nths (playlist s) {i. int i \<notin> set (selectedIndices s)}"
proof (cases "selectedIndices s = []")
  case True
  then show ?thesis by (simp add: deleteSelectedTracks_def nths_all)
next
  case False
  then show ?thesis
    using foldl_splice1_descending [OF indicesToDelete_descending [OF assms(1)], of "playlist s"] assms(2)
    by (simp add: deleteSelectedTracks_def Let_def set_indicesToDelete)
qed

lemma currentIndex_deleteSelectedTracks:
  "currentIndex (deleteSelectedTracks s) =
     (if currentIndex s = -1 \<or> currentIndex s \<in> set (selectedIndices s) then -1
      else currentIndex s - int (length (filter (\<lambda>d. d < currentIndex s) (selectedIndices s))))"
proof -
  have "length (filter (\<lambda>d. d < c) (rev (sort xs))) = length (filter (\<lambda>d. d < c) xs)" for c :: int and xs
    by (metis (no_types) length_rev rev_filter filter_sort length_sort)
  then show ?thesis
    by (auto simp: deleteSelectedTracks_def Let_def adjustIndex_eq indicesToDelete_def)
qed

lemma filter_card:
  "distinct xs \<Longrightarrow> length (filter P xs) = card {d \<in> set xs. P d}"
  by (metis distinct_filter distinct_card set_filter)

text \<open>
  C7. When the selection holds row indices (no duplicates, none negative),
  \<open>deleteSelectedTracks\<close> leaves exactly the tracks whose index is not selected, in their
  order, and empties the selection; the indices are spliced out in strictly descending
  order. With \<open>{0, 2}\<close> selected in \<open>[A, B, C]\<close> the playlist becomes \<open>[B]\<close>.
\<close>

theorem deleteSelected_removes_selection:
  assumes "distinct (selectedIndices s)" and "\<forall>d\<in>set (selectedIndices s). 0 \<le> d"
  shows "playlist (deleteSelectedTracks s)
           = nths (playlist s) {i. int i \<notin> set (selectedIndices s)}
         \<and> selectedIndices (deleteSelectedTracks s) = []
         \<and> sorted_wrt (\<lambda>a b. b < a) (indicesToDelete (selectedIndices s))
         \<and> set (indicesToDelete (selectedIndices s)) = set (selectedIndices s)"
proof -
  have "selectedIndices (deleteSelectedTracks s) = []"
    by (simp add: deleteSelectedTracks_def Let_def)
  then show ?thesis
    using playlist_deleteSelectedTracks [OF assms] indicesToDelete_descending [OF assms(1)]
    by (simp add: set_indicesToDelete)
qed

theorem deleteSelected_removes_selection_witness:
  "distinct (selectedIndices (abc\<lparr>selectedIndices := [0, 2]\<rparr>))
   \<and> set (selectedIndices (abc\<lparr>selectedIndices := [0, 2]\<rparr>)) \<subseteq> {d. 0 \<le> d}
   \<and> playlist (deleteSelectedTracks (abc\<lparr>selectedIndices := [0, 2]\<rparr>)) = [trackB]
   \<and> selectedIndices (deleteSelectedTracks (abc\<lparr>selectedIndices := [0, 2]\<rparr>)) = []
   \<and> indicesToDelete [0, 2] = [2, 0]"
  using deleteSelected_removes_selection [of "abc\<lparr>selectedIndices := [0, 2]\<rparr>"]
  by (simp add: abc_def initialApp_def nths_Cons indicesToDelete_def)

text \<open>
  C1 (as the code has it). When the current index is selected, \<open>deleteSelectedTracks\<close>
  sets it to \<open>-1\<close>; otherwise it is lowered by one for each selected index below it, and
  selected indices above it leave it as it is. Playback is not stopped: \<open>isPlaying\<close>, the
  audio engine and the suspended calls are unchanged.
\<close>

theorem deleteSelected_currentIndex:
  assumes "distinct (selectedIndices s)"
  shows "(currentIndex s \<in> set (selectedIndices s) \<longrightarrow> currentIndex (deleteSelectedTracks s) = -1)
       \<and> (currentIndex s \<noteq> -1 \<and> currentIndex s \<notin> set (selectedIndices s) \<longrightarrow>
            currentIndex (deleteSelectedTracks s)
              = currentIndex s - int (card {d \<in> set (selectedIndices s). d < currentIndex s}))
       \<and> ((\<forall>d\<in>set (selectedIndices s). currentIndex s < d) \<longrightarrow>
            currentIndex (deleteSelectedTracks s) = currentIndex s)
       \<and> isPlaying (deleteSelectedTracks s) = isPlaying s
       \<and> audioEngine (deleteSelectedTracks s) = audioEngine s
       \<and> pending (deleteSelectedTracks s) = pending s"
proof -
  have nochange: "isPlaying (deleteSelectedTracks s) = isPlaying s
       \<and> audioEngine (deleteSelectedTracks s) = audioEngine s
       \<and> pending (deleteSelectedTracks s) = pending s"
    by (simp add: deleteSelectedTracks_def Let_def)
  have above: "currentIndex (deleteSelectedTracks s) = currentIndex s"
    if "\<forall>d\<in>set (selectedIndices s). currentIndex s < d"
  proof -
    have "filter (\<lambda>d. d < currentIndex s) (selectedIndices s) = []"
      using that by (auto simp: filter_empty_conv)
    moreover have "currentIndex s \<notin> set (selectedIndices s)" using that by auto
    ultimately show ?thesis by (simp add: currentIndex_deleteSelectedTracks)
  qed
  show ?thesis
    using nochange above
    by (simp add: currentIndex_deleteSelectedTracks filter_card [OF assms])
qed

theorem deleteSelected_currentIndex_witness:
  "distinct [1::int]
   \<and> currentIndex (deleteSelectedTracks (abc\<lparr>currentIndex := 1, isPlaying := True, selectedIndices := [1]\<rparr>)) = -1
   \<and> isPlaying (deleteSelectedTracks (abc\<lparr>currentIndex := 1, isPlaying := True, selectedIndices := [1]\<rparr>))
   \<and> distinct [1, 0::int]
   \<and> currentIndex (deleteSelectedTracks (abc\<lparr>currentIndex := 2, selectedIndices := [1, 0]\<rparr>)) = 0
   \<and> distinct [2, 1::int]
   \<and> currentIndex (deleteSelectedTracks (abc\<lparr>currentIndex := 0, selectedIndices := [2, 1]\<rparr>)) = 0"
  using deleteSelected_currentIndex [of "abc\<lparr>currentIndex := 1, isPlaying := True, selectedIndices := [1]\<rparr>"]
    deleteSelected_currentIndex [of "abc\<lparr>currentIndex := 2, selectedIndices := [1, 0]\<rparr>"]
    deleteSelected_currentIndex [of "abc\<lparr>currentIndex := 0, selectedIndices := [2, 1]\<rparr>"]
  by (simp add: abc_def initialApp_def deleteSelectedTracks_def Let_def indicesToDelete_def)

text \<open>
  The current track \<open>B\<close> of \<open>[A, B, C]\<close> is playing and selected: after the deletion
  \<open>isPlaying\<close> is still true.
\<close>

theorem deleteSelected_keeps_playing_counterexample:
  "currentIndex (abc\<lparr>currentIndex := 1, isPlaying := True, selectedIndices := [1]\<rparr>)
     \<in> set (selectedIndices (abc\<lparr>currentIndex := 1, isPlaying := True, selectedIndices := [1]\<rparr>))
   \<and> \<not> (currentIndex (deleteSelectedTracks (abc\<lparr>currentIndex := 1, isPlaying := True, selectedIndices := [1]\<rparr>)) = -1
        \<and> isPlaying (deleteSelectedTracks (abc\<lparr>currentIndex := 1, isPlaying := True, selectedIndices := [1]\<rparr>)) = False)"
  by (simp add: abc_def initialApp_def deleteSelectedTracks_def Let_def)

lemma deleted_index_in_range:
  assumes d: "distinct sel" and nn: "\<forall>d\<in>set sel. 0 \<le> d"
    and ci: "0 \<le> ci" "ci < int (length xs)" "ci \<notin> set sel"
  shows "0 \<le> ci - int (length (filter (\<lambda>d. d < ci) sel))
       \<and> ci - int (length (filter (\<lambda>d. d < ci) sel)) < int (length (nths xs {i. int i \<notin> set sel}))"
proof -
  let ?K = "{d \<in> set sel. d < ci}"
  let ?A = "{i. i < nat ci \<and> int i \<notin> set sel}"
  let ?B = "{i. i < length xs \<and> int i \<notin> set sel}"
  have len: "length (filter (\<lambda>d. d < ci) sel) = card ?K"
    using d by (rule filter_card)
  have inj: "inj_on nat ?K"
  proof (rule inj_onI)
    fix x y
    assume "x \<in> ?K" "y \<in> ?K" and eq: "nat x = nat y"
    then have "0 \<le> x" "0 \<le> y" using nn by auto
    then show "x = y" using eq by arith
  qed
  have "{..<nat ci} = ?A \<union> nat ` ?K"
  proof (rule set_eqI)
    fix i
    show "i \<in> {..<nat ci} \<longleftrightarrow> i \<in> ?A \<union> nat ` ?K"
    proof
      assume "i \<in> {..<nat ci}"
      then have i: "i < nat ci" by simp
      show "i \<in> ?A \<union> nat ` ?K"
      proof (cases "int i \<in> set sel")
        case True
        then have "int i \<in> ?K" using i by auto
        then have "nat (int i) \<in> nat ` ?K" by (rule imageI)
        then show ?thesis by simp
      next
        case False
        then show ?thesis using i by simp
      qed
    next
      assume "i \<in> ?A \<union> nat ` ?K"
      then show "i \<in> {..<nat ci}" using nn by auto
    qed
  qed
  moreover have "?A \<inter> nat ` ?K = {}" using nn by auto
  moreover have "finite ?A" "finite (nat ` ?K)" by auto
  ultimately have "card {..<nat ci} = card ?A + card (nat ` ?K)"
    by (metis card_Un_disjoint)
  then have sum: "nat ci = card ?A + card ?K"
    by (simp add: card_image [OF inj])
  have "nat ci \<in> ?B" "nat ci \<notin> ?A" using ci by auto
  moreover have "?A \<subseteq> ?B" using ci by auto
  ultimately have "?A \<subset> ?B" by blast
  moreover have "finite ?B" by simp
  ultimately have "card ?A < card ?B" by (rule psubset_card_mono [rotated])
  moreover have "length (nths xs {i. int i \<notin> set sel}) = card ?B"
    by (simp add: length_nths)
  ultimately show ?thesis using sum len ci(1) by linarith
qed

lemma indexValid_deleteSelectedTracks:
  assumes "indexValid s" "selectionValid s"
  shows "indexValid (deleteSelectedTracks s)"
proof (cases "currentIndex s = -1 \<or> currentIndex s \<in> set (selectedIndices s)")
  case True
  then show ?thesis by (simp add: indexValid_def currentIndex_deleteSelectedTracks)
next
  case False
  have d: "distinct (selectedIndices s)" and nn: "\<forall>d\<in>set (selectedIndices s). 0 \<le> d"
    using assms(2) by (auto simp: selectionValid_def)
  have ci: "0 \<le> currentIndex s" "currentIndex s < int (length (playlist s))"
    using assms(1) False by (auto simp: indexValid_def)
  show ?thesis
    using deleted_index_in_range [OF d nn ci] False
    by (simp add: indexValid_def currentIndex_deleteSelectedTracks
        playlist_deleteSelectedTracks [OF d nn])
qed

lemma playingHasTrack_deleteSelectedTracks:
  assumes "indexValid s" "selectionValid s" "playingHasTrack s"
    "currentIndex s \<notin> set (selectedIndices s)"
  shows "playingHasTrack (deleteSelectedTracks s)"
proof (cases "currentIndex s = -1")
  case True
  then have "\<not> isPlaying s" using assms(3) by (simp add: playingHasTrack_def)
  then show ?thesis by (simp add: playingHasTrack_def deleteSelectedTracks_def Let_def)
next
  case False
  have d: "distinct (selectedIndices s)" and nn: "\<forall>d\<in>set (selectedIndices s). 0 \<le> d"
    using assms(2) by (auto simp: selectionValid_def)
  have ci: "0 \<le> currentIndex s" "currentIndex s < int (length (playlist s))"
    using assms(1) False by (auto simp: indexValid_def)
  show ?thesis
    using deleted_index_in_range [OF d nn ci] False assms(4)
    by (simp add: playingHasTrack_def currentIndex_deleteSelectedTracks)
qed

section \<open>Facts about playTrack and its continuations\<close>

lemma revokeCurrent_fields [simp]:
  "currentIndex (revokeCurrent s) = currentIndex s"
  "playlist (revokeCurrent s) = playlist s"
  "isPlaying (revokeCurrent s) = isPlaying s"
  "selectedIndices (revokeCurrent s) = selectedIndices s"
  "pending (revokeCurrent s) = pending s"
  "audioEngine (revokeCurrent s) = audioEngine s"
  "errorMessage (revokeCurrent s) = errorMessage s"
  "timers (revokeCurrent s) = timers s"
  "nextUrl (revokeCurrent s) = nextUrl s"
  by (simp_all add: revokeCurrent_def split: option.split)

lemma playTrack_out_of_range:
  "index < 0 \<or> int (length currentList) \<le> index \<Longrightarrow> playTrack s vol index currentList = s"
  by (auto simp: playTrack_def)

lemma playTrack_invalid:
  "0 \<le> index \<Longrightarrow> index < int (length currentList) \<Longrightarrow>
   \<not> isValidAudioFile (path (currentList ! nat index)) \<Longrightarrow>
   playTrack s vol index currentList
     = s\<lparr>errorMessage := Some ''Invalid audio file type'', timers := timers s @ [3000]\<rparr>"
  by (simp add: playTrack_def Let_def)

lemma playTrack_valid:
  "0 \<le> index \<Longrightarrow> index < int (length currentList) \<Longrightarrow>
   isValidAudioFile (path (currentList ! nat index)) \<Longrightarrow>
   playTrack s vol index currentList
     = (revokeCurrent (s\<lparr>currentIndex := index\<rparr>))
         \<lparr>pending := pending s @ [Loading (currentList ! nat index) vol]\<rparr>"
  by (simp add: playTrack_def Let_def)

lemma playTrack_cases:
  obtains (out) "index < 0 \<or> int (length currentList) \<le> index" "playTrack s vol index currentList = s"
  | (invalid) "0 \<le> index" "index < int (length currentList)"
      "playTrack s vol index currentList
         = s\<lparr>errorMessage := Some ''Invalid audio file type'', timers := timers s @ [3000]\<rparr>"
  | (valid) "0 \<le> index" "index < int (length currentList)"
      "playTrack s vol index currentList
         = (revokeCurrent (s\<lparr>currentIndex := index\<rparr>))
             \<lparr>pending := pending s @ [Loading (currentList ! nat index) vol]\<rparr>"
proof -
  consider (a) "index < 0 \<or> int (length currentList) \<le> index"
    | (b) "0 \<le> index" "index < int (length currentList)"
        "\<not> isValidAudioFile (path (currentList ! nat index))"
    | (c) "0 \<le> index" "index < int (length currentList)"
        "isValidAudioFile (path (currentList ! nat index))"
    by linarith
  then show thesis
  proof cases
    case a
    then show ?thesis using out playTrack_out_of_range by blast
  next
    case b
    then show ?thesis using invalid playTrack_invalid by blast
  next
    case c
    then show ?thesis using valid playTrack_valid by blast
  qed
qed

lemma playTrack_playlist [simp]: "playlist (playTrack s vol index currentList) = playlist s"
  by (cases rule: playTrack_cases [where index = index and currentList = currentList and s = s and vol = vol]) simp_all

lemma playTrack_selectedIndices [simp]:
  "selectedIndices (playTrack s vol index currentList) = selectedIndices s"
  by (cases rule: playTrack_cases [where index = index and currentList = currentList and s = s and vol = vol]) simp_all

lemma playTrack_isPlaying [simp]: "isPlaying (playTrack s vol index currentList) = isPlaying s"
  by (cases rule: playTrack_cases [where index = index and currentList = currentList and s = s and vol = vol]) simp_all

lemma playTrack_audioEngine [simp]: "audioEngine (playTrack s vol index currentList) = audioEngine s"
  by (cases rule: playTrack_cases [where index = index and currentList = currentList and s = s and vol = vol]) simp_all

lemma indexValid_playTrack:
  "indexValid s \<Longrightarrow> indexValid (playTrack s vol index (playlist s))"
  by (cases rule: playTrack_cases [where index = index and currentList = "playlist s" and s = s and vol = vol]) (simp_all add: indexValid_def)

lemma playingHasTrack_playTrack:
  "playingHasTrack s \<Longrightarrow> playingHasTrack (playTrack s vol index currentList)"
  by (cases rule: playTrack_cases [where index = index and currentList = currentList and s = s and vol = vol]) (auto simp: playingHasTrack_def)

lemma indexValid_appendTracks: "indexValid s \<Longrightarrow> indexValid (appendTracks s ts)"
proof -
  assume v: "indexValid s"
  define s1 where "s1 = s\<lparr>playlist := playlist s @ ts\<rparr>"
  have v1: "indexValid s1" using v by (auto simp: indexValid_def s1_def)
  have pl: "playlist s1 = playlist s @ ts" by (simp add: s1_def)
  have "indexValid (playTrack s1 1 0 (playlist s1))" using v1 by (rule indexValid_playTrack)
  moreover have "appendTracks s ts = playTrack s1 1 0 (playlist s1) \<or> appendTracks s ts = s1"
    unfolding appendTracks_def Let_def pl s1_def by simp
  ultimately show ?thesis using v1 by auto
qed

lemma playingHasTrack_appendTracks: "playingHasTrack s \<Longrightarrow> playingHasTrack (appendTracks s ts)"
proof -
  assume v: "playingHasTrack s"
  define s1 where "s1 = s\<lparr>playlist := playlist s @ ts\<rparr>"
  have v1: "playingHasTrack s1" using v by (auto simp: playingHasTrack_def s1_def)
  have pl: "playlist s1 = playlist s @ ts" by (simp add: s1_def)
  have "playingHasTrack (playTrack s1 1 0 (playlist s1))" using v1 by (rule playingHasTrack_playTrack)
  moreover have "appendTracks s ts = playTrack s1 1 0 (playlist s1) \<or> appendTracks s ts = s1"
    unfolding appendTracks_def Let_def pl s1_def by simp
  ultimately show ?thesis using v1 by auto
qed

lemma indexValid_togglePlay: "indexValid s \<Longrightarrow> indexValid (togglePlay s)"
  using indexValid_playTrack [of s "volume s" 0]
  by (auto simp: togglePlay_def) (simp_all add: indexValid_def)

lemma playingHasTrack_togglePlay: "playingHasTrack s \<Longrightarrow> playingHasTrack (togglePlay s)"
  using playingHasTrack_playTrack [of s "volume s" 0 "playlist s"]
  by (auto simp: togglePlay_def) (simp_all add: playingHasTrack_def)

lemma indexValid_onEnded: "indexValid s \<Longrightarrow> indexValid (onEnded s)"
  using indexValid_playTrack [of s 1 "currentIndex s + 1"]
  by (auto simp: onEnded_def Let_def) (simp_all add: indexValid_def)

lemma playingHasTrack_onEnded: "playingHasTrack s \<Longrightarrow> playingHasTrack (onEnded s)"
  using playingHasTrack_playTrack [of s 1 "currentIndex s + 1" "playlist s"]
  by (auto simp: onEnded_def Let_def) (simp_all add: playingHasTrack_def)

lemma settle_currentIndex [simp]: "currentIndex (settle s k r) = currentIndex s"
  by (simp add: settle_def Let_def playTrackLoaded_def playTrackStarted_def playTrackFailed_def
      togglePlaySettled_def split: pending.split outcome.split)

lemma settle_playlist [simp]: "playlist (settle s k r) = playlist s"
  by (simp add: settle_def Let_def playTrackLoaded_def playTrackStarted_def playTrackFailed_def
      togglePlaySettled_def split: pending.split outcome.split)

lemma settle_selectedIndices [simp]: "selectedIndices (settle s k r) = selectedIndices s"
  by (simp add: settle_def Let_def playTrackLoaded_def playTrackStarted_def playTrackFailed_def
      togglePlaySettled_def split: pending.split outcome.split)

lemma indexValid_settle: "indexValid s \<Longrightarrow> indexValid (settle s k r)"
  by (simp add: indexValid_def)

section \<open>The example states\<close>

lemma valid_trackA: "isValidAudioFile (path trackA)"
  by (simp add: isValidAudioFile_def trackA_def validExtensions_def endsWith_def
      toLowerCase_def toLowerChar_def suffix_to_prefix)

lemma valid_trackB: "isValidAudioFile (path trackB)"
  by (simp add: isValidAudioFile_def trackB_def validExtensions_def endsWith_def
      toLowerCase_def toLowerChar_def suffix_to_prefix)

lemma valid_trackC: "isValidAudioFile (path trackC)"
  by (simp add: isValidAudioFile_def trackC_def validExtensions_def endsWith_def
      toLowerCase_def toLowerChar_def suffix_to_prefix)

lemma mime_trackA: "getMimeType (path trackA) = ''audio/mpeg''"
  by (simp add: getMimeType_def trackA_def mimeTypes_def toLowerCase_def toLowerChar_def)

lemma mime_trackB: "getMimeType (path trackB) = ''audio/flac''"
  by (simp add: getMimeType_def trackB_def mimeTypes_def toLowerCase_def toLowerChar_def)

lemma playTrack_abc_0:
  "playTrack abc 1 0 (playlist abc) = abc\<lparr>currentIndex := 0, pending := [Loading trackA 1]\<rparr>"
proof -
  have "playTrack abc 1 0 [trackA, trackB, trackC]
      = (revokeCurrent (abc\<lparr>currentIndex := 0\<rparr>))\<lparr>pending := pending abc @ [Loading trackA 1]\<rparr>"
    using valid_trackA by (subst playTrack_valid) simp_all
  then show ?thesis by (simp add: abc_def initialApp_def revokeCurrent_def)
qed

lemma playingA_eq:
  "playingA = abc\<lparr>isPlaying := True, currentIndex := 0, currentObjectUrlRef := Some 0,
      audioEngine := \<lparr>audio = \<lparr>src = Some 0, volume = 1, currentTime = 0, paused = False\<rparr>\<rparr>,
      objectUrls := [0 \<mapsto> \<lparr>bytes = [1], mimeType = ''audio/mpeg''\<rparr>], nextUrl := 1\<rparr>"
  unfolding playingA_def playTrack_abc_0
  by (simp add: settle_def playTrackLoaded_def playTrackStarted_def Let_def mime_trackA
      load_def setVolume_def playing_def abc_def initialApp_def)

lemma supersededLoad_eq:
  "supersededLoad = abc\<lparr>isPlaying := True, currentIndex := 1, currentObjectUrlRef := Some 0,
      audioEngine := \<lparr>audio = \<lparr>src = Some 0, volume = 1, currentTime = 0, paused = False\<rparr>\<rparr>,
      objectUrls := [0 \<mapsto> \<lparr>bytes = [2], mimeType = ''audio/flac''\<rparr>], nextUrl := 1,
      pending := [Loading trackA 1]\<rparr>"
proof -
  have "playTrack (abc\<lparr>currentIndex := 0, pending := [Loading trackA 1]\<rparr>) 1 1 [trackA, trackB, trackC]
      = (revokeCurrent (abc\<lparr>currentIndex := 0, pending := [Loading trackA 1]\<rparr>\<lparr>currentIndex := 1\<rparr>))
          \<lparr>pending := [Loading trackA 1] @ [Loading trackB 1]\<rparr>"
    using valid_trackB by (subst playTrack_valid) simp_all
  then have "playTrack (playTrack abc 1 0 (playlist abc)) 1 1 (playlist abc)
      = abc\<lparr>currentIndex := 1, pending := [Loading trackA 1, Loading trackB 1]\<rparr>"
    unfolding playTrack_abc_0 by (simp add: abc_def initialApp_def revokeCurrent_def)
  then show ?thesis
    unfolding supersededLoad_def
    by (simp add: settle_def playTrackLoaded_def playTrackStarted_def Let_def mime_trackB
        load_def setVolume_def playing_def abc_def initialApp_def)
qed

lemma mime_trackC: "getMimeType (path trackC) = ''audio/wav''"
  by (simp add: getMimeType_def trackC_def mimeTypes_def toLowerCase_def toLowerChar_def)

lemma resumedAfterDeleteAll_eq:
  "resumedAfterDeleteAll = abc\<lparr>playlist := [], currentObjectUrlRef := Some 0,
      audioEngine := \<lparr>audio = \<lparr>src = Some 0, volume = 1, currentTime = 0, paused = True\<rparr>\<rparr>,
      objectUrls := [0 \<mapsto> \<lparr>bytes = [1], mimeType = ''audio/mpeg''\<rparr>], nextUrl := 1,
      pending := [Resuming]\<rparr>"
proof -
  have 1: "handleKeyDown playingA (keyDown False ''Space'')
      = playingA\<lparr>audioEngine := pause (audioEngine playingA), isPlaying := False\<rparr>"
    by (simp add: handleKeyDown_def keyDown_def togglePlay_def playingA_eq abc_def initialApp_def)
  have 2: "handleKeyDown (playingA\<lparr>audioEngine := pause (audioEngine playingA), isPlaying := False\<rparr>)
        (keyDown True ''KeyA'')
      = playingA\<lparr>audioEngine := pause (audioEngine playingA), isPlaying := False,
          selectedIndices := [0, 1, 2]\<rparr>"
    by (simp add: handleKeyDown_def keyDown_def playingA_eq abc_def initialApp_def upt_rec)
  have 3: "handleKeyDown (playingA\<lparr>audioEngine := pause (audioEngine playingA), isPlaying := False,
          selectedIndices := [0, 1, 2]\<rparr>) (keyDown False ''Delete'')
      = playingA\<lparr>audioEngine := pause (audioEngine playingA), isPlaying := False,
          selectedIndices := [], playlist := [], currentIndex := -1\<rparr>"
    by (simp add: handleKeyDown_def keyDown_def deleteSelectedTracks_def Let_def
        indicesToDelete_def splice1_def playingA_eq abc_def initialApp_def)
  have 4: "handleKeyDown (playingA\<lparr>audioEngine := pause (audioEngine playingA), isPlaying := False,
          selectedIndices := [], playlist := [], currentIndex := -1\<rparr>) (keyDown False ''Space'')
      = playingA\<lparr>audioEngine := pause (audioEngine playingA), isPlaying := False,
          selectedIndices := [], playlist := [], currentIndex := -1, pending := [Resuming]\<rparr>"
    by (simp add: handleKeyDown_def keyDown_def togglePlay_def playingA_eq abc_def initialApp_def)
  show ?thesis
    unfolding resumedAfterDeleteAll_def 1 2 3 4
    by (simp add: playingA_eq abc_def initialApp_def pause_def)
qed

lemma clickedBthenC_eq:
  "clickedBthenC = abc\<lparr>isPlaying := True, currentIndex := 2, currentObjectUrlRef := Some 1,
      audioEngine := \<lparr>audio = \<lparr>src = Some 1, volume = 1, currentTime = 0, paused = False\<rparr>\<rparr>,
      objectUrls := [1 \<mapsto> \<lparr>bytes = [3], mimeType = ''audio/wav''\<rparr>], nextUrl := 2,
      pending := [Loading trackB 1, Starting]\<rparr>"
proof -
  have pl: "playlist playingA = [trackA, trackB, trackC]" "volume playingA = 1"
    by (simp_all add: playingA_eq abc_def initialApp_def)
  have "playTrack playingA 1 1 [trackA, trackB, trackC]
      = (revokeCurrent (playingA\<lparr>currentIndex := 1\<rparr>))\<lparr>pending := pending playingA @ [Loading trackB 1]\<rparr>"
    using valid_trackB by (subst playTrack_valid) simp_all
  then have 1: "handlePlaylistItemClick playingA 1 False
      = playingA\<lparr>currentIndex := 1, objectUrls := Map.empty, currentObjectUrlRef := None,
          pending := [Loading trackB 1]\<rparr>"
    by (simp add: handlePlaylistItemClick_def pl)
       (simp add: playingA_eq abc_def initialApp_def revokeCurrent_def)
  let ?s1 = "playingA\<lparr>currentIndex := 1, objectUrls := Map.empty, currentObjectUrlRef := None,
          pending := [Loading trackB 1]\<rparr>"
  have "playTrack ?s1 1 2 [trackA, trackB, trackC]
      = (revokeCurrent (?s1\<lparr>currentIndex := 2\<rparr>))\<lparr>pending := pending ?s1 @ [Loading trackC 1]\<rparr>"
    using valid_trackC by (subst playTrack_valid) simp_all
  then have 2: "handlePlaylistItemClick ?s1 2 False
      = playingA\<lparr>currentIndex := 2, objectUrls := Map.empty, currentObjectUrlRef := None,
          pending := [Loading trackB 1, Loading trackC 1]\<rparr>"
    by (simp add: handlePlaylistItemClick_def pl)
       (simp add: playingA_eq abc_def initialApp_def revokeCurrent_def)
  show ?thesis
    unfolding clickedBthenC_def 1 2
    by (simp add: settle_def playTrackLoaded_def Let_def mime_trackC load_def setVolume_def
        playingA_eq abc_def initialApp_def)
qed

section \<open>Starting a track\<close>

lemma timers_funpow_timeout: "timers ((timeout ^^ n) s) = drop n (timers s)"
proof (induction n)
  case 0
  show ?case by simp
next
  case (Suc n)
  then show ?case
    by (cases "drop n (timers s)") (simp_all add: timeout_def drop_Suc tl_drop drop_tl)
qed

lemma errorMessage_funpow_timeout:
  "0 < n \<Longrightarrow> n \<le> length (timers s) \<Longrightarrow> errorMessage ((timeout ^^ n) s) = None"
proof (cases n)
  case 0
  assume "0 < n"
  with 0 show ?thesis by simp
next
  case (Suc m)
  assume "n \<le> length (timers s)"
  then have "drop m (timers s) \<noteq> []" using Suc by simp
  then obtain t ts where "timers ((timeout ^^ m) s) = t # ts"
    by (cases "drop m (timers s)") (simp_all add: timers_funpow_timeout)
  then show ?thesis using Suc by (simp add: timeout_def)
qed

text \<open>
  C4 (as the code has it). \<open>playTrack\<close> with an index outside the list returns at once and
  changes nothing: no error message is set. For an index inside the list whose track has
  no supported extension, the message "Invalid audio file type" is set and a callback that
  clears it is scheduled after 3000 ms (once the scheduled callbacks have run, the message
  is gone); the current index, \<open>isPlaying\<close>, the audio engine and the object URLs are
  unchanged, and no load is started, so the file is never read.
\<close>

theorem playTrack_rejected:
  "(index < 0 \<or> int (length currentList) \<le> index \<longrightarrow> playTrack s vol index currentList = s)
   \<and> (0 \<le> index \<and> index < int (length currentList)
        \<and> \<not> isValidAudioFile (path (currentList ! nat index)) \<longrightarrow>
          errorMessage (playTrack s vol index currentList) = Some ''Invalid audio file type''
        \<and> timers (playTrack s vol index currentList) = timers s @ [3000]
        \<and> errorMessage ((timeout ^^ length (timers (playTrack s vol index currentList)))
              (playTrack s vol index currentList)) = None
        \<and> currentIndex (playTrack s vol index currentList) = currentIndex s
        \<and> isPlaying (playTrack s vol index currentList) = isPlaying s
        \<and> audioEngine (playTrack s vol index currentList) = audioEngine s
        \<and> pending (playTrack s vol index currentList) = pending s
        \<and> objectUrls (playTrack s vol index currentList) = objectUrls s
        \<and> currentObjectUrlRef (playTrack s vol index currentList) = currentObjectUrlRef s)"
proof -
  have "errorMessage ((timeout ^^ length (timers s')) s') = None"
    if "timers s' = timers s @ [3000]" for s'
    using that by (intro errorMessage_funpow_timeout) simp_all
  then show ?thesis
    by (auto simp: playTrack_out_of_range playTrack_invalid)
qed

theorem playTrack_rejected_witness:
  "int (length (playlist abc)) \<le> 5
   \<and> playTrack abc 1 5 (playlist abc) = abc
   \<and> 0 \<le> (1::int) \<and> 1 < int (length [trackA, trackX])
   \<and> \<not> isValidAudioFile (path ([trackA, trackX] ! nat 1))
   \<and> errorMessage (playTrack (initialApp\<lparr>playlist := [trackA, trackX]\<rparr>) 1 1 [trackA, trackX])
        = Some ''Invalid audio file type''
   \<and> timers (playTrack (initialApp\<lparr>playlist := [trackA, trackX]\<rparr>) 1 1 [trackA, trackX]) = [3000]
   \<and> pending (playTrack (initialApp\<lparr>playlist := [trackA, trackX]\<rparr>) 1 1 [trackA, trackX]) = []
   \<and> currentIndex (playTrack (initialApp\<lparr>playlist := [trackA, trackX]\<rparr>) 1 1 [trackA, trackX]) = -1"
proof -
  let ?s = "initialApp\<lparr>playlist := [trackA, trackX]\<rparr>"
  have x: "\<not> isValidAudioFile (path trackX)"
    by (simp add: isValidAudioFile_def trackX_def validExtensions_def endsWith_def
        toLowerCase_def toLowerChar_def suffix_to_prefix)
  then have pre: "0 \<le> (1::int) \<and> 1 < int (length [trackA, trackX])
      \<and> \<not> isValidAudioFile (path ([trackA, trackX] ! nat 1))"
    by simp
  have len: "int (length (playlist abc)) \<le> 5" by (simp add: abc_def initialApp_def)
  have out: "playTrack abc 1 5 (playlist abc) = abc"
    using playTrack_rejected [of 5 "playlist abc" abc 1] len by blast
  have "errorMessage (playTrack ?s 1 1 [trackA, trackX]) = Some ''Invalid audio file type''
      \<and> timers (playTrack ?s 1 1 [trackA, trackX]) = timers ?s @ [3000]
      \<and> pending (playTrack ?s 1 1 [trackA, trackX]) = pending ?s
      \<and> currentIndex (playTrack ?s 1 1 [trackA, trackX]) = currentIndex ?s"
    using playTrack_rejected [of 1 "[trackA, trackX]" ?s 1] pre by blast
  then have "errorMessage (playTrack ?s 1 1 [trackA, trackX]) = Some ''Invalid audio file type''
      \<and> timers (playTrack ?s 1 1 [trackA, trackX]) = [3000]
      \<and> pending (playTrack ?s 1 1 [trackA, trackX]) = []
      \<and> currentIndex (playTrack ?s 1 1 [trackA, trackX]) = -1"
    by (simp add: initialApp_def)
  then show ?thesis using len out pre by blast
qed

theorem playTrack_out_of_bounds_counterexample:
  "\<not> (5 < int (length (playlist abc)))
   \<and> errorMessage (playTrack abc (volume abc) 5 (playlist abc)) = None
   \<and> timers (playTrack abc (volume abc) 5 (playlist abc)) = []"
  by (simp add: abc_def initialApp_def playTrack_def)

text \<open>
  C5. For an index inside the list whose track has a supported extension, \<open>playTrack\<close>
  has set \<open>currentIndex\<close> to that index when it suspends: the load is still pending, and
  \<open>isPlaying\<close> and the audio engine are as before.
\<close>

theorem playTrack_sets_index_before_load:
  assumes "0 \<le> index" and "index < int (length currentList)"
    and "isValidAudioFile (path (currentList ! nat index))"
  shows "currentIndex (playTrack s vol index currentList) = index
       \<and> pending (playTrack s vol index currentList)
           = pending s @ [Loading (currentList ! nat index) vol]
       \<and> isPlaying (playTrack s vol index currentList) = isPlaying s
       \<and> audioEngine (playTrack s vol index currentList) = audioEngine s"
  by (simp add: playTrack_valid [OF assms])

theorem playTrack_sets_index_before_load_witness:
  "(0::int) \<le> 2 \<and> (2::int) < int (length (playlist abc))
   \<and> isValidAudioFile (path (playlist abc ! nat 2))
   \<and> currentIndex (playTrack abc 1 2 (playlist abc)) = 2
   \<and> pending (playTrack abc 1 2 (playlist abc)) = [Loading trackC 1]
   \<and> src (audio (audioEngine (playTrack abc 1 2 (playlist abc)))) = None"
  using playTrack_sets_index_before_load [of 2 "playlist abc" abc 1] valid_trackC
  by (simp add: abc_def initialApp_def)

text \<open>
  C10. Outside an input field, ArrowLeft sets the displayed \<open>currentTime\<close> (and the seek
  position given to the engine) to \<open>t - 5\<close> and ArrowRight to \<open>t + 5\<close>, with no clamping:
  the displayed time is negative after ArrowLeft at \<open>t < 5\<close> and beyond the duration after
  ArrowRight within 5 seconds of the end.
\<close>

theorem arrow_keys_seek_unclamped:
  assumes "\<not> targetIsInput e"
  shows "(code e = ''ArrowLeft'' \<longrightarrow>
            currentTime (handleKeyDown s e) = currentTime s - 5
          \<and> HTMLAudioElement.currentTime (audio (audioEngine (handleKeyDown s e))) = currentTime s - 5)
       \<and> (code e = ''ArrowRight'' \<longrightarrow>
            currentTime (handleKeyDown s e) = currentTime s + 5
          \<and> HTMLAudioElement.currentTime (audio (audioEngine (handleKeyDown s e))) = currentTime s + 5)
       \<and> (code e = ''ArrowLeft'' \<and> currentTime s < 5 \<longrightarrow> currentTime (handleKeyDown s e) < 0)
       \<and> (code e = ''ArrowRight'' \<and> duration s < currentTime s + 5 \<longrightarrow>
            duration s < currentTime (handleKeyDown s e))"
  using assms by (simp add: handleKeyDown_def seek_def)

theorem arrow_keys_seek_unclamped_witness:
  "\<not> targetIsInput \<lparr>targetIsInput = False, metaKey = False, ctrlKey = False, code = ''ArrowLeft''\<rparr>
   \<and> currentTime (handleKeyDown (abc\<lparr>currentTime := 2, duration := 100\<rparr>)
        \<lparr>targetIsInput = False, metaKey = False, ctrlKey = False, code = ''ArrowLeft''\<rparr>) = -3
   \<and> currentTime (handleKeyDown (abc\<lparr>currentTime := 98, duration := 100\<rparr>)
        \<lparr>targetIsInput = False, metaKey = False, ctrlKey = False, code = ''ArrowRight''\<rparr>) = 103"
  using arrow_keys_seek_unclamped [of "\<lparr>targetIsInput = False, metaKey = False, ctrlKey = False, code = ''ArrowLeft''\<rparr>" "abc\<lparr>currentTime := 2, duration := 100\<rparr>"]
    arrow_keys_seek_unclamped [of "\<lparr>targetIsInput = False, metaKey = False, ctrlKey = False, code = ''ArrowRight''\<rparr>" "abc\<lparr>currentTime := 98, duration := 100\<rparr>"]
  by (simp add: abc_def initialApp_def)

section \<open>The ended notification\<close>

text \<open>
  C6. The \<open>ended\<close> handler reads the playlist and the current index of the state in which
  the notification arrives. With the index outside the playlist it only sets \<open>isPlaying\<close>
  to false; with a next track it calls \<open>playTrack\<close> on the next index (which becomes the
  current index, the load pending); with the last track current it sets \<open>isPlaying\<close> to
  false, keeps the index and starts no load, so there is no wrap-around.
\<close>

theorem onEnded_advances_or_stops:
  "(currentIndex s < 0 \<or> int (length (playlist s)) \<le> currentIndex s \<longrightarrow>
      onEnded s = s\<lparr>isPlaying := False\<rparr>)
   \<and> (0 \<le> currentIndex s \<and> currentIndex s + 1 < int (length (playlist s)) \<longrightarrow>
        onEnded s = playTrack s 1 (currentIndex s + 1) (playlist s)
      \<and> (isValidAudioFile (path (playlist s ! nat (currentIndex s + 1))) \<longrightarrow>
           currentIndex (onEnded s) = currentIndex s + 1
         \<and> pending (onEnded s)
             = pending s @ [Loading (playlist s ! nat (currentIndex s + 1)) 1]))
   \<and> (0 \<le> currentIndex s \<and> currentIndex s + 1 = int (length (playlist s)) \<longrightarrow>
        onEnded s = s\<lparr>isPlaying := False\<rparr>
      \<and> currentIndex (onEnded s) = currentIndex s
      \<and> \<not> isPlaying (onEnded s)
      \<and> pending (onEnded s) = pending s)"
  by (auto simp: onEnded_def Let_def playTrack_valid)

theorem onEnded_advances_or_stops_witness:
  "currentIndex (onEnded (abc\<lparr>currentIndex := 0, isPlaying := True\<rparr>)) = 1
   \<and> pending (onEnded (abc\<lparr>currentIndex := 0, isPlaying := True\<rparr>)) = [Loading trackB 1]
   \<and> currentIndex (onEnded (abc\<lparr>currentIndex := 2, isPlaying := True\<rparr>)) = 2
   \<and> \<not> isPlaying (onEnded (abc\<lparr>currentIndex := 2, isPlaying := True\<rparr>))
   \<and> pending (onEnded (abc\<lparr>currentIndex := 2, isPlaying := True\<rparr>)) = []
   \<and> onEnded (abc\<lparr>currentIndex := -1, isPlaying := True\<rparr>) = abc\<lparr>currentIndex := -1, isPlaying := False\<rparr>
   \<and> pending (onEnded (deleteSelectedTracks (abc\<lparr>currentIndex := 0, isPlaying := True, selectedIndices := [1]\<rparr>)))
       = [Loading trackC 1]"
proof -
  let ?s0 = "abc\<lparr>currentIndex := 0, isPlaying := True\<rparr>"
  let ?s2 = "abc\<lparr>currentIndex := 2, isPlaying := True\<rparr>"
  let ?s3 = "abc\<lparr>currentIndex := -1, isPlaying := True\<rparr>"
  let ?s4 = "deleteSelectedTracks (abc\<lparr>currentIndex := 0, isPlaying := True, selectedIndices := [1]\<rparr>)"
  have s4: "?s4 = abc\<lparr>playlist := [trackA, trackC], currentIndex := 0, isPlaying := True\<rparr>"
    by (simp add: deleteSelectedTracks_def Let_def indicesToDelete_def splice1_def abc_def initialApp_def)
  have p0: "0 \<le> currentIndex ?s0 \<and> currentIndex ?s0 + 1 < int (length (playlist ?s0))"
    by (simp add: abc_def initialApp_def)
  have v0: "isValidAudioFile (path (playlist ?s0 ! nat (currentIndex ?s0 + 1)))"
    using valid_trackB by (simp add: abc_def initialApp_def)
  have "currentIndex (onEnded ?s0) = currentIndex ?s0 + 1
      \<and> pending (onEnded ?s0) = pending ?s0 @ [Loading (playlist ?s0 ! nat (currentIndex ?s0 + 1)) 1]"
    using onEnded_advances_or_stops [of ?s0] p0 v0 by blast
  then have a: "currentIndex (onEnded ?s0) = 1 \<and> pending (onEnded ?s0) = [Loading trackB 1]"
    by (simp add: abc_def initialApp_def)
  have p2: "0 \<le> currentIndex ?s2 \<and> currentIndex ?s2 + 1 = int (length (playlist ?s2))"
    by (simp add: abc_def initialApp_def)
  have "currentIndex (onEnded ?s2) = currentIndex ?s2 \<and> \<not> isPlaying (onEnded ?s2)
      \<and> pending (onEnded ?s2) = pending ?s2"
    using onEnded_advances_or_stops [of ?s2] p2 by blast
  then have b: "currentIndex (onEnded ?s2) = 2 \<and> \<not> isPlaying (onEnded ?s2) \<and> pending (onEnded ?s2) = []"
    by (simp add: abc_def initialApp_def)
  have p3: "currentIndex ?s3 < 0" by simp
  have "onEnded ?s3 = ?s3\<lparr>isPlaying := False\<rparr>"
    using onEnded_advances_or_stops [of ?s3] p3 by blast
  then have c: "onEnded ?s3 = abc\<lparr>currentIndex := -1, isPlaying := False\<rparr>"
    by simp
  let ?t = "abc\<lparr>playlist := [trackA, trackC], currentIndex := 0, isPlaying := True\<rparr>"
  have p4: "0 \<le> currentIndex ?t \<and> currentIndex ?t + 1 < int (length (playlist ?t))"
    by (simp add: abc_def initialApp_def)
  have v4: "isValidAudioFile (path (playlist ?t ! nat (currentIndex ?t + 1)))"
    using valid_trackC by (simp add: abc_def initialApp_def)
  have "pending (onEnded ?t) = pending ?t @ [Loading (playlist ?t ! nat (currentIndex ?t + 1)) 1]"
    using onEnded_advances_or_stops [of ?t] p4 v4 by blast
  then have "pending (onEnded ?t) = [Loading trackC 1]"
    by (simp add: abc_def initialApp_def)
  then have d: "pending (onEnded ?s4) = [Loading trackC 1]"
    by (simp only: s4)
  show ?thesis using a b c d by blast
qed

section \<open>Invariants\<close>

text \<open>
  The selection stays a set of rows of the playlist under every handler, so that the
  assumption on the selection below holds in every state the component reaches from
  \<open>initialApp\<close>.
\<close>

lemma selectionValid_same:
  "selectionValid s \<Longrightarrow> selectedIndices s' = selectedIndices s \<Longrightarrow>
   playlist s' = playlist s \<Longrightarrow> selectionValid s'"
  by (simp add: selectionValid_def)

lemma selectionValid_empty: "selectedIndices s' = [] \<Longrightarrow> selectionValid s'"
  by (simp add: selectionValid_def)

lemma togglePlay_same [simp]:
  "selectedIndices (togglePlay s) = selectedIndices s" "playlist (togglePlay s) = playlist s"
  by (simp_all add: togglePlay_def)

lemma onEnded_same [simp]:
  "selectedIndices (onEnded s) = selectedIndices s" "playlist (onEnded s) = playlist s"
  by (simp_all add: onEnded_def Let_def)

lemma selectionValid_appendTracks: "selectionValid s \<Longrightarrow> selectionValid (appendTracks s ts)"
proof -
  assume v: "selectionValid s"
  have "selectedIndices (appendTracks s ts) = selectedIndices s"
    "playlist (appendTracks s ts) = playlist s @ ts"
    by (simp_all add: appendTracks_def Let_def)
  then show ?thesis using v by (auto simp: selectionValid_def)
qed

lemma selectionValid_click:
  assumes "selectionValid s" "0 \<le> index" "index < int (length (playlist s))"
  shows "selectionValid (handlePlaylistItemClick s index modKey)"
proof (cases modKey)
  case True
  then show ?thesis
    using assms by (auto simp: handlePlaylistItemClick_def selectionValid_def distinct_removeAll)
next
  case False
  then show ?thesis by (simp add: handlePlaylistItemClick_def selectionValid_empty)
qed

lemma selectionValid_selectAll:
  "selectionValid (s\<lparr>selectedIndices := map int [0..<length (playlist s)]\<rparr>)"
  by (auto simp: selectionValid_def distinct_map inj_on_def)

lemma selectionValid_deleteSelectedTracks:
  "selectionValid s \<Longrightarrow> selectionValid (deleteSelectedTracks s)"
  by (cases "selectedIndices s = []")
     (simp_all add: deleteSelectedTracks_def Let_def selectionValid_empty)

lemma selectionValid_handleKeyDown:
  assumes "selectionValid s"
  shows "selectionValid (handleKeyDown s e)"
proof -
  have a: "selectionValid (togglePlay s)"
    using assms by (rule selectionValid_same) simp_all
  have b: "selectionValid (s\<lparr>audioEngine := x, currentTime := y\<rparr>)" for x y
    using assms by (rule selectionValid_same) simp_all
  have c: "selectionValid (s\<lparr>volume := y, audioEngine := x\<rparr>)" for x y
    using assms by (rule selectionValid_same) simp_all
  have d: "selectionValid (s\<lparr>selectedIndices := map int [0..<length (playlist s)]\<rparr>)"
    by (rule selectionValid_selectAll)
  have e: "selectionValid (deleteSelectedTracks s)"
    using assms by (rule selectionValid_deleteSelectedTracks)
  show ?thesis
    by (simp only: handleKeyDown_def Let_def split: if_split) (use assms a b c d e in blast)
qed

lemma selectionValid_preserved:
  assumes "selectionValid s"
  shows "selectionValid (appendTracks s ts)"
    and "selectionValid (deleteSelectedTracks s)"
    and "selectionValid (playTrack s vol index currentList)"
    and "selectionValid (settle s k r)"
    and "selectionValid (togglePlay s)"
    and "selectionValid (onEnded s)"
    and "selectionValid (handleKeyDown s e)"
    and "0 \<le> i \<Longrightarrow> i < int (length (playlist s)) \<Longrightarrow> selectionValid (handlePlaylistItemClick s i m)"
proof -
  show "selectionValid (appendTracks s ts)" using assms by (rule selectionValid_appendTracks)
  show "selectionValid (deleteSelectedTracks s)" using assms by (rule selectionValid_deleteSelectedTracks)
  show "selectionValid (playTrack s vol index currentList)"
    using assms by (rule selectionValid_same) simp_all
  show "selectionValid (settle s k r)"
    using assms by (rule selectionValid_same) simp_all
  show "selectionValid (togglePlay s)"
    using assms by (rule selectionValid_same) simp_all
  show "selectionValid (onEnded s)"
    using assms by (rule selectionValid_same) simp_all
  show "selectionValid (handleKeyDown s e)" using assms by (rule selectionValid_handleKeyDown)
  show "selectionValid (handlePlaylistItemClick s i m)"
    if "0 \<le> i" "i < int (length (playlist s))"
    using assms that by (rule selectionValid_click)
qed

lemma invariants_initialApp: "indexValid initialApp \<and> selectionValid initialApp \<and> playingHasTrack initialApp"
  by (simp add: indexValid_def selectionValid_def playingHasTrack_def initialApp_def)

lemma playingHasTrack_deleteSelectedTracks_iff:
  assumes "indexValid s" "selectionValid s" "playingHasTrack s"
  shows "playingHasTrack (deleteSelectedTracks s)
           \<longleftrightarrow> \<not> (isPlaying s \<and> currentIndex s \<in> set (selectedIndices s))"
proof (cases "currentIndex s \<in> set (selectedIndices s)")
  case True
  then have "currentIndex (deleteSelectedTracks s) = -1"
    by (simp add: currentIndex_deleteSelectedTracks)
  moreover have "isPlaying (deleteSelectedTracks s) = isPlaying s"
    by (simp add: deleteSelectedTracks_def Let_def)
  ultimately show ?thesis using True by (simp add: playingHasTrack_def)
next
  case False
  then show ?thesis using playingHasTrack_deleteSelectedTracks [OF assms False] by simp
qed

lemma isPlaying_settle:
  "isPlaying (settle s k r) =
     (if k < length (pending s) then
        (case r of
           Rejected \<Rightarrow> False
         | Resolved bs \<Rightarrow> (case pending s ! k of Loading t v \<Rightarrow> isPlaying s | _ \<Rightarrow> True))
      else isPlaying s)"
  by (simp add: settle_def Let_def playTrackLoaded_def playTrackStarted_def playTrackFailed_def
      togglePlaySettled_def split: pending.split outcome.split)

lemma playingHasTrack_settle_iff:
  assumes "playingHasTrack s"
  shows "playingHasTrack (settle s k r)
           \<longleftrightarrow> \<not> (k < length (pending s)
                  \<and> (pending s ! k = Starting \<or> pending s ! k = Resuming)
                  \<and> r \<noteq> Rejected \<and> currentIndex s = -1)"
  using assms
  by (cases r; cases "pending s ! k") (auto simp: playingHasTrack_def isPlaying_settle)

text \<open>
  C2 (as the code has it). From a state with a valid current index and a selection of rows
  of the playlist, the index invariant holds after \<open>appendTracks\<close>, \<open>deleteSelectedTracks\<close>,
  \<open>playTrack\<close> on the current playlist, the settlement of any suspended call, \<open>togglePlay\<close>
  and the \<open>ended\<close> handler. The playing invariant is kept by \<open>appendTracks\<close>, by the
  parts of \<open>playTrack\<close> and \<open>togglePlay\<close> that run before they suspend, and by the \<open>ended\<close>
  handler. \<open>deleteSelectedTracks\<close> keeps it exactly when the current track is not both
  playing and selected. The settlement of a suspended call keeps it exactly unless a
  \<open>play()\<close> promise (of \<open>playTrack\<close> or of \<open>togglePlay\<close>) resolves while the current index is
  \<open>-1\<close>.
\<close>

theorem invariants_after_mutation:
  assumes "indexValid s" and "selectionValid s"
  shows "indexValid (appendTracks s ts)
       \<and> indexValid (deleteSelectedTracks s)
       \<and> indexValid (playTrack s vol index (playlist s))
       \<and> indexValid (settle s k r)
       \<and> indexValid (togglePlay s)
       \<and> indexValid (onEnded s)
       \<and> (playingHasTrack s \<longrightarrow>
             playingHasTrack (appendTracks s ts)
           \<and> playingHasTrack (playTrack s vol index (playlist s))
           \<and> playingHasTrack (togglePlay s)
           \<and> playingHasTrack (onEnded s)
           \<and> (playingHasTrack (deleteSelectedTracks s)
                \<longleftrightarrow> \<not> (isPlaying s \<and> currentIndex s \<in> set (selectedIndices s)))
           \<and> (playingHasTrack (settle s k r)
                \<longleftrightarrow> \<not> (k < length (pending s)
                       \<and> (pending s ! k = Starting \<or> pending s ! k = Resuming)
                       \<and> r \<noteq> Rejected \<and> currentIndex s = -1)))"
proof -
  have idx: "indexValid (appendTracks s ts) \<and> indexValid (deleteSelectedTracks s)
      \<and> indexValid (playTrack s vol index (playlist s)) \<and> indexValid (settle s k r)
      \<and> indexValid (togglePlay s) \<and> indexValid (onEnded s)"
    by (simp add: indexValid_appendTracks [OF assms(1)] indexValid_deleteSelectedTracks [OF assms]
        indexValid_playTrack [OF assms(1)] indexValid_settle [OF assms(1)]
        indexValid_togglePlay [OF assms(1)] indexValid_onEnded [OF assms(1)])
  have play: "playingHasTrack (appendTracks s ts)
      \<and> playingHasTrack (playTrack s vol index (playlist s))
      \<and> playingHasTrack (togglePlay s) \<and> playingHasTrack (onEnded s)
      \<and> (playingHasTrack (deleteSelectedTracks s)
           \<longleftrightarrow> \<not> (isPlaying s \<and> currentIndex s \<in> set (selectedIndices s)))
      \<and> (playingHasTrack (settle s k r)
           \<longleftrightarrow> \<not> (k < length (pending s)
                  \<and> (pending s ! k = Starting \<or> pending s ! k = Resuming)
                  \<and> r \<noteq> Rejected \<and> currentIndex s = -1))"
    if p: "playingHasTrack s"
    using playingHasTrack_appendTracks [OF p] playingHasTrack_playTrack [OF p]
      playingHasTrack_togglePlay [OF p] playingHasTrack_onEnded [OF p]
      playingHasTrack_deleteSelectedTracks_iff [OF assms p] playingHasTrack_settle_iff [OF p]
    by blast
  show ?thesis using idx play by blast
qed

theorem invariants_after_mutation_witness:
  "indexValid (playingA\<lparr>selectedIndices := [2]\<rparr>)
   \<and> selectionValid (playingA\<lparr>selectedIndices := [2]\<rparr>)
   \<and> playingHasTrack (playingA\<lparr>selectedIndices := [2]\<rparr>)
   \<and> indexValid (deleteSelectedTracks (playingA\<lparr>selectedIndices := [2]\<rparr>))
   \<and> playingHasTrack (deleteSelectedTracks (playingA\<lparr>selectedIndices := [2]\<rparr>))
   \<and> indexValid (onEnded (playingA\<lparr>selectedIndices := [2]\<rparr>))
   \<and> playingHasTrack (onEnded (playingA\<lparr>selectedIndices := [2]\<rparr>))
   \<and> indexValid (togglePlay (playingA\<lparr>selectedIndices := [2]\<rparr>))
   \<and> indexValid (appendTracks (playingA\<lparr>selectedIndices := [2]\<rparr>) [trackA])
   \<and> indexValid resumedAfterDeleteAll
   \<and> selectionValid resumedAfterDeleteAll
   \<and> playingHasTrack resumedAfterDeleteAll
   \<and> indexValid (settle resumedAfterDeleteAll 0 (Resolved []))
   \<and> playingHasTrack (settle resumedAfterDeleteAll 0 Rejected)
   \<and> \<not> playingHasTrack (settle resumedAfterDeleteAll 0 (Resolved []))"
proof -
  let ?s = "playingA\<lparr>selectedIndices := [2]\<rparr>"
  let ?t = resumedAfterDeleteAll
  have a: "indexValid ?s" by (simp add: indexValid_def playingA_eq abc_def initialApp_def)
  have b: "selectionValid ?s" by (simp add: selectionValid_def playingA_eq abc_def initialApp_def)
  have c: "playingHasTrack ?s" by (simp add: playingHasTrack_def playingA_eq abc_def initialApp_def)
  have d: "\<not> (isPlaying ?s \<and> currentIndex ?s \<in> set (selectedIndices ?s))"
    by (simp add: playingA_eq abc_def initialApp_def)
  have s: "indexValid (deleteSelectedTracks ?s) \<and> playingHasTrack (deleteSelectedTracks ?s)
      \<and> indexValid (onEnded ?s) \<and> playingHasTrack (onEnded ?s) \<and> indexValid (togglePlay ?s)
      \<and> indexValid (appendTracks ?s [trackA])"
    using invariants_after_mutation [OF a b, of "[trackA]"] c d by blast
  have e: "indexValid ?t" by (simp add: indexValid_def resumedAfterDeleteAll_eq abc_def initialApp_def)
  have f: "selectionValid ?t"
    by (simp add: selectionValid_def resumedAfterDeleteAll_eq abc_def initialApp_def)
  have g: "playingHasTrack ?t"
    by (simp add: playingHasTrack_def resumedAfterDeleteAll_eq abc_def initialApp_def)
  have h: "0 < length (pending ?t) \<and> pending ?t ! 0 = Resuming \<and> currentIndex ?t = -1"
    by (simp add: resumedAfterDeleteAll_eq abc_def initialApp_def)
  have t1: "indexValid (settle ?t 0 (Resolved [])) \<and> \<not> playingHasTrack (settle ?t 0 (Resolved []))"
    using invariants_after_mutation [OF e f, of _ _ _ 0 "Resolved []"] g h by blast
  have t2: "playingHasTrack (settle ?t 0 Rejected)"
    using invariants_after_mutation [OF e f, of _ _ _ 0 Rejected] g by blast
  show ?thesis using a b c s e f g t1 t2 by blast
qed

text \<open>
  Two runs that end with \<open>isPlaying\<close> true and the current index \<open>-1\<close>. Track \<open>A\<close> is
  playing and selected, and is deleted. Track \<open>A\<close> is paused, all tracks are deleted, Space
  is pressed, and the \<open>play()\<close> promise of \<open>togglePlay\<close> resolves.
\<close>

theorem playing_invariant_broken_counterexample:
  "indexValid (playingA\<lparr>selectedIndices := [0]\<rparr>)
   \<and> selectionValid (playingA\<lparr>selectedIndices := [0]\<rparr>)
   \<and> playingHasTrack (playingA\<lparr>selectedIndices := [0]\<rparr>)
   \<and> isPlaying (deleteSelectedTracks (playingA\<lparr>selectedIndices := [0]\<rparr>))
   \<and> currentIndex (deleteSelectedTracks (playingA\<lparr>selectedIndices := [0]\<rparr>)) = -1
   \<and> \<not> playingHasTrack (deleteSelectedTracks (playingA\<lparr>selectedIndices := [0]\<rparr>))
   \<and> indexValid resumedAfterDeleteAll
   \<and> selectionValid resumedAfterDeleteAll
   \<and> playingHasTrack resumedAfterDeleteAll
   \<and> pending resumedAfterDeleteAll = [Resuming]
   \<and> isPlaying (settle resumedAfterDeleteAll 0 (Resolved []))
   \<and> currentIndex (settle resumedAfterDeleteAll 0 (Resolved [])) = -1
   \<and> \<not> playingHasTrack (settle resumedAfterDeleteAll 0 (Resolved []))"
proof -
  have "indexValid (playingA\<lparr>selectedIndices := [0]\<rparr>)
      \<and> selectionValid (playingA\<lparr>selectedIndices := [0]\<rparr>)
      \<and> playingHasTrack (playingA\<lparr>selectedIndices := [0]\<rparr>)
      \<and> isPlaying (deleteSelectedTracks (playingA\<lparr>selectedIndices := [0]\<rparr>))
      \<and> currentIndex (deleteSelectedTracks (playingA\<lparr>selectedIndices := [0]\<rparr>)) = -1
      \<and> \<not> playingHasTrack (deleteSelectedTracks (playingA\<lparr>selectedIndices := [0]\<rparr>))"
    by (simp add: indexValid_def selectionValid_def playingHasTrack_def playingA_eq abc_def
        initialApp_def deleteSelectedTracks_def Let_def indicesToDelete_def)
  moreover have "indexValid resumedAfterDeleteAll \<and> selectionValid resumedAfterDeleteAll
      \<and> playingHasTrack resumedAfterDeleteAll \<and> pending resumedAfterDeleteAll = [Resuming]
      \<and> isPlaying (settle resumedAfterDeleteAll 0 (Resolved []))
      \<and> currentIndex (settle resumedAfterDeleteAll 0 (Resolved [])) = -1
      \<and> \<not> playingHasTrack (settle resumedAfterDeleteAll 0 (Resolved []))"
    by (simp add: indexValid_def selectionValid_def playingHasTrack_def resumedAfterDeleteAll_eq
        abc_def initialApp_def settle_def Let_def togglePlaySettled_def)
  ultimately show ?thesis by blast
qed

section \<open>Object URLs\<close>

lemma settle_Rejected_urls:
  "objectUrls (settle t k Rejected) = objectUrls t
   \<and> currentObjectUrlRef (settle t k Rejected) = currentObjectUrlRef t
   \<and> nextUrl (settle t k Rejected) = nextUrl t"
  by (simp add: settle_def Let_def playTrackLoaded_def playTrackStarted_def playTrackFailed_def
      togglePlaySettled_def split: pending.split)

text \<open>
  C3 (as the code has it). When a track change passes the checks of \<open>playTrack\<close>, the
  active object URL is revoked and the reference cleared at once, before the file is read
  and before any new object URL is made; the new URL is made only when the read resolves.
  A suspended call that is rejected (a failed read or a rejected \<open>play()\<close>), in whatever
  state \<open>t\<close> it arrives, revokes and makes no URL and leaves the reference as it is, so
  the URL revoked at the call is not restored. When the read fails directly after the call,
  no URL is active.
\<close>

theorem playTrack_revokes_before_load:
  assumes "0 \<le> index" and "index < int (length currentList)"
    and "isValidAudioFile (path (currentList ! nat index))"
    and "currentObjectUrlRef s = Some u"
  shows "objectUrls (playTrack s vol index currentList) = (objectUrls s)(u := None)
       \<and> currentObjectUrlRef (playTrack s vol index currentList) = None
       \<and> nextUrl (playTrack s vol index currentList) = nextUrl s
       \<and> pending (playTrack s vol index currentList)
           = pending s @ [Loading (currentList ! nat index) vol]
       \<and> objectUrls (settle t k Rejected) = objectUrls t
       \<and> currentObjectUrlRef (settle t k Rejected) = currentObjectUrlRef t
       \<and> nextUrl (settle t k Rejected) = nextUrl t
       \<and> objectUrls (settle (playTrack s vol index currentList) (length (pending s)) Rejected)
           = (objectUrls s)(u := None)
       \<and> currentObjectUrlRef (settle (playTrack s vol index currentList) (length (pending s)) Rejected)
           = None
       \<and> errorMessage (settle (playTrack s vol index currentList) (length (pending s)) Rejected)
           = Some ''Failed to load audio file''
       \<and> \<not> isPlaying (settle (playTrack s vol index currentList) (length (pending s)) Rejected)
       \<and> objectUrls (settle (playTrack s vol index currentList) (length (pending s)) (Resolved bs))
           = ((objectUrls s)(u := None))
               (nextUrl s \<mapsto> \<lparr>bytes = bs, mimeType = getMimeType (path (currentList ! nat index))\<rparr>)
       \<and> currentObjectUrlRef (settle (playTrack s vol index currentList) (length (pending s)) (Resolved bs))
           = Some (nextUrl s)"
proof -
  have call: "objectUrls (playTrack s vol index currentList) = (objectUrls s)(u := None)
       \<and> currentObjectUrlRef (playTrack s vol index currentList) = None
       \<and> nextUrl (playTrack s vol index currentList) = nextUrl s
       \<and> pending (playTrack s vol index currentList)
           = pending s @ [Loading (currentList ! nat index) vol]
       \<and> objectUrls (settle (playTrack s vol index currentList) (length (pending s)) Rejected)
           = (objectUrls s)(u := None)
       \<and> currentObjectUrlRef (settle (playTrack s vol index currentList) (length (pending s)) Rejected)
           = None
       \<and> errorMessage (settle (playTrack s vol index currentList) (length (pending s)) Rejected)
           = Some ''Failed to load audio file''
       \<and> \<not> isPlaying (settle (playTrack s vol index currentList) (length (pending s)) Rejected)
       \<and> objectUrls (settle (playTrack s vol index currentList) (length (pending s)) (Resolved bs))
           = ((objectUrls s)(u := None))
               (nextUrl s \<mapsto> \<lparr>bytes = bs, mimeType = getMimeType (path (currentList ! nat index))\<rparr>)
       \<and> currentObjectUrlRef (settle (playTrack s vol index currentList) (length (pending s)) (Resolved bs))
           = Some (nextUrl s)"
    using assms(4)
    by (simp add: playTrack_valid [OF assms(1-3)] revokeCurrent_def settle_def Let_def
        playTrackLoaded_def playTrackFailed_def)
  show ?thesis using call settle_Rejected_urls [of t k] by blast
qed

theorem playTrack_revokes_before_load_witness:
  "(0::int) \<le> 1 \<and> (1::int) < int (length (playlist playingA))
   \<and> isValidAudioFile (path (playlist playingA ! nat 1))
   \<and> currentObjectUrlRef playingA = Some 0
   \<and> objectUrls (playTrack playingA 1 1 (playlist playingA)) 0 = None
   \<and> currentObjectUrlRef (playTrack playingA 1 1 (playlist playingA)) = None
   \<and> currentObjectUrlRef (settle (playTrack playingA 1 1 (playlist playingA)) 0 (Resolved [2])) = Some 1
   \<and> currentObjectUrlRef (settle (playTrack playingA 1 1 (playlist playingA)) 0 Rejected) = None
   \<and> pending clickedBthenC ! 0 = Loading trackB 1
   \<and> currentObjectUrlRef (settle clickedBthenC 0 Rejected) = Some 1
   \<and> objectUrls (settle clickedBthenC 0 Rejected) 1 = Some \<lparr>bytes = [3], mimeType = ''audio/wav''\<rparr>
   \<and> objectUrls (settle clickedBthenC 0 Rejected) 0 = None"
proof -
  have p: "(0::int) \<le> 1" "(1::int) < int (length (playlist playingA))"
    "isValidAudioFile (path (playlist playingA ! nat 1))" "currentObjectUrlRef playingA = Some 0"
    using valid_trackB by (simp_all add: playingA_eq abc_def initialApp_def)
  have q: "pending playingA = []" "nextUrl playingA = 1"
    by (simp_all add: playingA_eq abc_def initialApp_def)
  have c: "pending clickedBthenC ! 0 = Loading trackB 1" "currentObjectUrlRef clickedBthenC = Some 1"
    "objectUrls clickedBthenC 1 = Some \<lparr>bytes = [3], mimeType = ''audio/wav''\<rparr>"
    "objectUrls clickedBthenC 0 = None"
    by (simp_all add: clickedBthenC_eq abc_def initialApp_def)
  show ?thesis
    using playTrack_revokes_before_load [OF p, of 1 clickedBthenC 0 "[2]"] p q c by simp
qed

text \<open>
  Track \<open>A\<close> is playing from object URL \<open>0\<close> and \<open>playTrack(1)\<close> is called: URL \<open>0\<close> is
  revoked while the load of \<open>B\<close> is pending and no new URL exists; after the load has
  failed, URL \<open>0\<close> is still revoked, though it is still the source of the audio element.
\<close>

theorem playTrack_revokes_first_counterexample:
  "objectUrls playingA 0 = Some \<lparr>bytes = [1], mimeType = ''audio/mpeg''\<rparr>
   \<and> currentObjectUrlRef playingA = Some 0
   \<and> objectUrls (playTrack playingA 1 1 (playlist playingA)) 0 = None
   \<and> nextUrl (playTrack playingA 1 1 (playlist playingA)) = nextUrl playingA
   \<and> pending (playTrack playingA 1 1 (playlist playingA)) = [Loading trackB 1]
   \<and> objectUrls (settle (playTrack playingA 1 1 (playlist playingA)) 0 Rejected) 0 = None
   \<and> currentObjectUrlRef (settle (playTrack playingA 1 1 (playlist playingA)) 0 Rejected) = None
   \<and> src (audio (audioEngine (settle (playTrack playingA 1 1 (playlist playingA)) 0 Rejected))) = Some 0"
proof -
  have "playTrack playingA 1 1 [trackA, trackB, trackC]
      = (revokeCurrent (playingA\<lparr>currentIndex := 1\<rparr>))\<lparr>pending := pending playingA @ [Loading trackB 1]\<rparr>"
    using valid_trackB by (subst playTrack_valid) simp_all
  moreover have "playlist playingA = [trackA, trackB, trackC]"
    by (simp add: playingA_eq abc_def initialApp_def)
  ultimately show ?thesis
    by (simp add: playingA_eq abc_def initialApp_def revokeCurrent_def settle_def Let_def
        playTrackLoaded_def playTrackFailed_def)
qed

section \<open>Superseded loads\<close>




end
